theory Spec2Isabelle
  imports Main "HOL-Library.Word"
begin

section \<open>Strings and regular expressions of the source language\<close>

text \<open>
  A string of the source language is a sequence of 16-bit code units, and a regular
  expression without the \<^verbatim>\<open>u\<close> flag works on code units. A literal of the source
  is written \<open>js ''...''\<close>.
\<close>

type_synonym code_unit = "16 word"
type_synonym jsstring = "code_unit list"

definition js :: "string \<Rightarrow> jsstring" where
  "js s = map (\<lambda>c. of_nat (of_char c)) s"

definition AT :: code_unit where "AT = 0x40"
definition DOT :: code_unit where "DOT = 0x2E"
definition LT :: code_unit where "LT = 0x3C"
definition GT :: code_unit where "GT = 0x3E"

text \<open>
  The class \<^verbatim>\<open>\s\<close>: tab, line feed, vertical tab, form feed, carriage return, space,
  no-break space, U+1680, U+2000 to U+200A, the line and paragraph separators, U+202F,
  U+205F, U+3000 and the byte order mark.
\<close>

definition isWhiteSpace :: "code_unit \<Rightarrow> bool" where
  "isWhiteSpace c =
     (c = 0x09 \<or> c = 0x0A \<or> c = 0x0B \<or> c = 0x0C \<or> c = 0x0D \<or> c = 0x20 \<or> c = 0xA0
      \<or> c = 0x1680 \<or> (0x2000 \<le> c \<and> c \<le> 0x200A) \<or> c = 0x2028 \<or> c = 0x2029
      \<or> c = 0x202F \<or> c = 0x205F \<or> c = 0x3000 \<or> c = 0xFEFF)"

text \<open>
  The regular expressions of the source are sequences of quantified character classes,
  the first of them closed by \<^verbatim>\<open>$\<close>. \<open>rprefix r s\<close> matches \<open>r\<close> at the
  start of \<open>s\<close> the way a backtracking engine does (a quantifier takes as many code
  units as it can and gives them back one at a time while the rest fails) and returns
  what follows the match.
\<close>

datatype item =
    One "code_unit \<Rightarrow> bool"
  | Star "code_unit \<Rightarrow> bool"
  | Plus "code_unit \<Rightarrow> bool"
  | Eos

fun rprefix :: "item list \<Rightarrow> jsstring \<Rightarrow> jsstring option" where
  "rprefix [] s = Some s"
| "rprefix (Eos # r) s = (if s = [] then rprefix r s else None)"
| "rprefix (One p # r) [] = None"
| "rprefix (One p # r) (c # cs) = (if p c then rprefix r cs else None)"
| "rprefix (Plus p # r) [] = None"
| "rprefix (Plus p # r) (c # cs) = (if p c then rprefix (Star p # r) cs else None)"
| "rprefix (Star p # r) [] = rprefix r []"
| "rprefix (Star p # r) (c # cs) =
     (if p c then
        (case rprefix (Star p # r) cs of
           Some rest \<Rightarrow> Some rest
         | None \<Rightarrow> rprefix r (c # cs))
      else rprefix r (c # cs))"

text \<open>
  \<^verbatim>\<open>regex.test(s)\<close> for a regular expression that starts with \<^verbatim>\<open>^\<close>: the only
  start position that can match is 0.
\<close>

definition test_anchored :: "item list \<Rightarrow> jsstring \<Rightarrow> bool" where
  "test_anchored r s = (rprefix r s \<noteq> None)"

text \<open>
  \<^verbatim>\<open>s.replace(regex, '')\<close> with the \<^verbatim>\<open>g\<close> flag: every match, found from left to
  right, is deleted. After an empty match the engine steps over one code unit, which
  stays in the result.
\<close>

fun replace_all_empty :: "item list \<Rightarrow> jsstring \<Rightarrow> jsstring" where
  "replace_all_empty r [] = []"
| "replace_all_empty r (c # cs) =
     (case rprefix r (c # cs) of
        None \<Rightarrow> c # replace_all_empty r cs
      | Some rest \<Rightarrow>
          if length rest < length (c # cs) then replace_all_empty r rest
          else c # replace_all_empty r cs)"

section \<open>The email sender\<close>

subsection \<open>validateEmail and stripHtml\<close>

text \<open>\<^verbatim>\<open>/^[^\s@]+@[^\s@]+\.[^\s@]+$/\<close>\<close>

definition notSpaceAt :: "code_unit \<Rightarrow> bool" where
  "notSpaceAt c = (\<not> isWhiteSpace c \<and> c \<noteq> AT)"

definition emailRegex :: "item list" where
  "emailRegex =
     [Plus notSpaceAt, One (\<lambda>c. c = AT), Plus notSpaceAt, One (\<lambda>c. c = DOT),
      Plus notSpaceAt, Eos]"

definition validateEmail :: "jsstring \<Rightarrow> bool" where
  "validateEmail email = test_anchored emailRegex email"

text \<open>\<^verbatim>\<open>/<[^>]*>/g\<close>\<close>

definition tagRegex :: "item list" where
  "tagRegex = [One (\<lambda>c. c = LT), Star (\<lambda>c. c \<noteq> GT), One (\<lambda>c. c = GT)]"

definition stripHtml :: "jsstring \<Rightarrow> jsstring" where
  "stripHtml html = replace_all_empty tagRegex html"

subsection \<open>Data of the sender\<close>

text \<open>
  A field marked \<^verbatim>\<open>?\<close> in the source is an option. \<^verbatim>\<open>to\<close> is a string or an
  array of strings.
\<close>

datatype recipients = One_to jsstring | Many_to "jsstring list"

record EmailData =
  ed_to :: recipients
  ed_subject :: jsstring
  ed_content :: jsstring
  ed_from :: "jsstring option"
  ed_html :: "jsstring option"
  ed_text :: "jsstring option"

record EmailResponse =
  success :: bool
  messageId :: "jsstring option"
  error :: "jsstring option"

text \<open>
  What a \<^verbatim>\<open>throw\<close> or a rejected promise carries: an instance of \<^verbatim>\<open>Error\<close> with
  its message, or any other value, given by its rendering as a string (a thrown string
  is that string).
\<close>

datatype thrown = ErrorInstance jsstring | NotAnError jsstring

text \<open>
  The transport \<^verbatim>\<open>resend.emails.send\<close> is not part of the repository and is a
  parameter. It takes the object built by \<^verbatim>\<open>sendEmail\<close> and answers with
  \<^verbatim>\<open>{ data, error }\<close>, or throws. \<open>data_id\<close> is \<^verbatim>\<open>data?.id\<close> and
  \<open>error_message\<close> is the message of \<^verbatim>\<open>error\<close> when \<^verbatim>\<open>error\<close> is not null.
  The transport has a state of its own, so that it may answer two calls with the same
  request differently.
\<close>

record SendRequest =
  rq_from :: jsstring
  rq_to :: "jsstring list"
  rq_subject :: jsstring
  rq_html :: jsstring
  rq_text :: jsstring

record SendReply =
  data_id :: "jsstring option"
  error_message :: "jsstring option"

type_synonym 'st Resend = "'st \<Rightarrow> SendRequest \<Rightarrow> (thrown + SendReply) \<times> 'st"

text \<open>
  \<^verbatim>\<open>resend\<close> is set by \<^verbatim>\<open>initialize\<close> and undefined before; the constructor sets
  \<^verbatim>\<open>defaultFrom\<close>.
\<close>

record 'st EmailSender =
  resend :: "'st Resend option"
  defaultFrom :: jsstring

definition constructor :: "unit \<Rightarrow> 'st EmailSender" where
  "constructor u =
     \<lparr>resend = None, defaultFrom = js ''Glen AI Agent <noreply@yourdomain.com>''\<rparr>"

text \<open>
  \<^verbatim>\<open>initialize\<close> with the API key set: \<open>client\<close> is the transport made from the
  key. Without the key \<^verbatim>\<open>initialize\<close> throws and \<^verbatim>\<open>resend\<close> stays undefined.
\<close>

definition initialize :: "'st Resend \<Rightarrow> 'st EmailSender \<Rightarrow> 'st EmailSender" where
  "initialize client this = this\<lparr>resend := Some client\<rparr>"

text \<open>
  The effects of a call: the calls received by the transport and the pauses, in the
  order in which they happen, and the state of the transport. Log lines are left out.
\<close>

datatype event = TransportCall SendRequest | Delay nat

record 'st world =
  tstate :: 'st
  events :: "event list"

text \<open>\<^verbatim>\<open>a || b\<close> on an optional string: undefined and the empty string are falsy.\<close>

fun or_else :: "jsstring option \<Rightarrow> jsstring \<Rightarrow> jsstring" where
  "or_else None b = b"
| "or_else (Some a) b = (if a = [] then b else a)"

text \<open>\<^verbatim>\<open>try { body } catch (error) { handler }\<close>\<close>

definition try_catch ::
  "('w \<Rightarrow> (thrown + 'a) \<times> 'w) \<Rightarrow> (thrown \<Rightarrow> 'w \<Rightarrow> (thrown + 'a) \<times> 'w) \<Rightarrow>
   'w \<Rightarrow> (thrown + 'a) \<times> 'w" where
  "try_catch body handler w =
     (case body w of
        (Inl e, w') \<Rightarrow> handler e w'
      | (Inr v, w') \<Rightarrow> (Inr v, w'))"

text \<open>
  The message of the \<^verbatim>\<open>TypeError\<close> raised by reading \<^verbatim>\<open>emails\<close> of an undefined
  \<^verbatim>\<open>resend\<close>, as Node words it.
\<close>

definition undefinedResend :: jsstring where
  "undefinedResend = js ''Cannot read properties of undefined (reading 'emails')''"

subsection \<open>sendEmail\<close>

definition sendRequest :: "'st EmailSender \<Rightarrow> EmailData \<Rightarrow> SendRequest" where
  "sendRequest this emailData =
     \<lparr>rq_from = or_else (ed_from emailData) (defaultFrom this),
      rq_to = (case ed_to emailData of Many_to xs \<Rightarrow> xs | One_to x \<Rightarrow> [x]),
      rq_subject = ed_subject emailData,
      rq_html = or_else (ed_html emailData) (ed_content emailData),
      rq_text = or_else (ed_text emailData) (stripHtml (ed_content emailData))\<rparr>"

definition sendEmail_try ::
  "'st EmailSender \<Rightarrow> EmailData \<Rightarrow> 'st world \<Rightarrow> (thrown + EmailResponse) \<times> 'st world" where
  "sendEmail_try this emailData w =
     (case resend this of
        None \<Rightarrow> (Inl (ErrorInstance undefinedResend), w)
      | Some send \<Rightarrow>
          (let req = sendRequest this emailData;
               (r, ts) = send (tstate w) req;
               w' = w\<lparr>tstate := ts, events := events w @ [TransportCall req]\<rparr>
           in case r of
                Inl e \<Rightarrow> (Inl e, w')
              | Inr reply \<Rightarrow>
                  (case error_message reply of
                     Some m \<Rightarrow> (Inr \<lparr>success = False, messageId = None, error = Some m\<rparr>, w')
                   | None \<Rightarrow>
                       (Inr \<lparr>success = True, messageId = data_id reply, error = None\<rparr>, w'))))"

definition sendEmail_catch ::
  "thrown \<Rightarrow> 'st world \<Rightarrow> (thrown + EmailResponse) \<times> 'st world" where
  "sendEmail_catch e w =
     (Inr \<lparr>success = False, messageId = None,
           error = Some (case e of ErrorInstance m \<Rightarrow> m | NotAnError v \<Rightarrow> js ''Unknown error'')\<rparr>,
      w)"

definition sendEmail ::
  "'st EmailSender \<Rightarrow> EmailData \<Rightarrow> 'st world \<Rightarrow> (thrown + EmailResponse) \<times> 'st world" where
  "sendEmail this emailData = try_catch (sendEmail_try this emailData) sendEmail_catch"

subsection \<open>sendCampaign\<close>

definition batchSize :: nat where
  "batchSize = 10"

text \<open>\<^verbatim>\<open>xs.slice(a, b)\<close> for indices that are not negative.\<close>

definition slice_arr :: "'a list \<Rightarrow> nat \<Rightarrow> nat \<Rightarrow> 'a list" where
  "slice_arr xs a b = take (b - a) (drop a xs)"

text \<open>
  \<^verbatim>\<open>batch.map(recipient => this.sendEmail({to: recipient, subject, content, from}))\<close>:
  the sends of a batch are started in the order of the batch, and each calls the transport
  when it starts. The answer of the transport to a call is fixed by its state at that
  call, and the responses are kept in the order of the batch.
\<close>

definition campaignData ::
  "jsstring \<Rightarrow> jsstring \<Rightarrow> jsstring \<Rightarrow> jsstring option \<Rightarrow> EmailData" where
  "campaignData recipient subject content from_opt =
     \<lparr>ed_to = One_to recipient, ed_subject = subject, ed_content = content,
      ed_from = from_opt, ed_html = None, ed_text = None\<rparr>"

fun map_sendEmail ::
  "'st EmailSender \<Rightarrow> jsstring \<Rightarrow> jsstring \<Rightarrow> jsstring option \<Rightarrow> jsstring list \<Rightarrow>
   'st world \<Rightarrow> (thrown + EmailResponse) list \<times> 'st world" where
  "map_sendEmail this subject content from_opt [] w = ([], w)"
| "map_sendEmail this subject content from_opt (recipient # batch) w =
     (let (p, w1) = sendEmail this (campaignData recipient subject content from_opt) w;
          (ps, w2) = map_sendEmail this subject content from_opt batch w1
      in (p # ps, w2))"

text \<open>
  \<^verbatim>\<open>await Promise.all(promises)\<close>: the values in the order of the promises, or the
  rejection of a promise that rejects.
\<close>

fun promise_all :: "(thrown + 'a) list \<Rightarrow> thrown + 'a list" where
  "promise_all [] = Inr []"
| "promise_all (Inl e # ps) = Inl e"
| "promise_all (Inr v # ps) = (case promise_all ps of Inl e \<Rightarrow> Inl e | Inr vs \<Rightarrow> Inr (v # vs))"

definition delay :: "nat \<Rightarrow> 'st world \<Rightarrow> 'st world" where
  "delay ms w = w\<lparr>events := events w @ [Delay ms]\<rparr>"

text \<open>The loop of \<^verbatim>\<open>sendCampaign\<close>, from the index \<open>i\<close> with the results so far.\<close>

function campaign_loop ::
  "'st EmailSender \<Rightarrow> jsstring list \<Rightarrow> jsstring \<Rightarrow> jsstring \<Rightarrow> jsstring option \<Rightarrow>
   nat \<Rightarrow> EmailResponse list \<Rightarrow> 'st world \<Rightarrow> (thrown + EmailResponse list) \<times> 'st world" where
  "campaign_loop this recipients subject content from_opt i results w =
     (if i < length recipients then
        (let batch = slice_arr recipients i (i + batchSize);
             (promises, w1) = map_sendEmail this subject content from_opt batch w
         in case promise_all promises of
              Inl e \<Rightarrow> (Inl e, w1)
            | Inr batchResults \<Rightarrow>
                campaign_loop this recipients subject content from_opt (i + batchSize)
                  (results @ batchResults)
                  (if i + batchSize < length recipients then delay 1000 w1 else w1))
      else (Inr results, w))"
  by pat_completeness auto
termination
  by (relation "measure (\<lambda>(this, recipients, subject, content, from_opt, i, results, w).
        length recipients - i)") (auto simp: batchSize_def)

definition sendCampaign ::
  "'st EmailSender \<Rightarrow> jsstring list \<Rightarrow> jsstring \<Rightarrow> jsstring \<Rightarrow> jsstring option \<Rightarrow>
   'st world \<Rightarrow> (thrown + EmailResponse list) \<times> 'st world" where
  "sendCampaign this recipients subject content from_opt =
     try_catch (campaign_loop this recipients subject content from_opt 0 [])
       (\<lambda>e w. (Inl e, w))"

section \<open>Notions used to state the properties\<close>

text \<open>
  The address grammar in the words of the specification: a local part, \<^verbatim>\<open>@\<close> and a
  domain, each part non-empty, and no whitespace anywhere.
\<close>

definition twoPartAddress :: "jsstring \<Rightarrow> bool" where
  "twoPartAddress s =
     (list_ex (\<lambda>i. s ! i = AT \<and> take i s \<noteq> [] \<and> drop (Suc i) s \<noteq> []) [0..<length s]
      \<and> list_all (\<lambda>c. \<not> isWhiteSpace c) s)"

text \<open>A string has a tag when a \<^verbatim>\<open><\<close> in it is followed, sooner or later, by a \<^verbatim>\<open>>\<close>.\<close>

definition hasTag :: "jsstring \<Rightarrow> bool" where
  "hasTag s = (GT \<in> set (dropWhile (\<lambda>c. c \<noteq> LT) s))"

text \<open>
  The partition of a list into consecutive batches of a fixed size, and the batches put
  together again with a separator between two of them.
\<close>

function partition_batches :: "nat \<Rightarrow> 'a list \<Rightarrow> 'a list list" where
  "partition_batches b xs =
     (if b = 0 \<or> xs = [] then [] else take b xs # partition_batches b (drop b xs))"
  by pat_completeness auto
termination
  by (relation "measure (\<lambda>(b, xs). length xs)") auto

fun between_batches :: "'a list \<Rightarrow> 'a list list \<Rightarrow> 'a list" where
  "between_batches sep [] = []"
| "between_batches sep [x] = x"
| "between_batches sep (x # y # zs) = x @ sep @ between_batches sep (y # zs)"

text \<open>The requests received by the transport, and the pauses, of a list of events.\<close>

fun transportCalls :: "event list \<Rightarrow> SendRequest list" where
  "transportCalls [] = []"
| "transportCalls (TransportCall req # es) = req # transportCalls es"
| "transportCalls (Delay ms # es) = transportCalls es"

fun delays :: "event list \<Rightarrow> nat list" where
  "delays [] = []"
| "delays (TransportCall req # es) = delays es"
| "delays (Delay ms # es) = ms # delays es"

text \<open>The events of the sends of one batch: one call each when the transport is there.\<close>

definition callEvents ::
  "'st EmailSender \<Rightarrow> jsstring \<Rightarrow> jsstring \<Rightarrow> jsstring option \<Rightarrow> jsstring list \<Rightarrow> event list" where
  "callEvents this subject content from_opt batch =
     (case resend this of
        None \<Rightarrow> []
      | Some send \<Rightarrow>
          map (\<lambda>r. TransportCall (sendRequest this (campaignData r subject content from_opt)))
            batch)"

text \<open>
  Transports for the examples: one that accepts every message and numbers it, one that
  reports an error for every message, and one that throws on every call.
\<close>

definition messageIdOf :: "nat \<Rightarrow> jsstring" where
  "messageIdOf n = replicate (Suc n) 0x23"

definition alwaysSucceeds :: "nat Resend" where
  "alwaysSucceeds n req = (Inr \<lparr>data_id = Some (messageIdOf n), error_message = None\<rparr>, n + 1)"

definition alwaysRejects :: "nat Resend" where
  "alwaysRejects n req =
     (Inr \<lparr>data_id = None, error_message = Some (js ''rate limit exceeded'')\<rparr>, n + 1)"

definition alwaysThrows :: "nat Resend" where
  "alwaysThrows n req = (Inl (ErrorInstance (js ''fetch failed'')), n + 1)"

definition newWorld :: "nat world" where
  "newWorld = \<lparr>tstate = 0, events = []\<rparr>"

text \<open>The sender and the recipients of the scenario of the specification.\<close>

definition scenarioSender :: "nat EmailSender" where
  "scenarioSender = initialize alwaysSucceeds (constructor ())"

definition scenarioRecipients :: "jsstring list" where
  "scenarioRecipients = [js ''a@x.com'', js ''bad'', js ''c@x.com'']"

text \<open>
  A sender whose transport rejects every message, one whose transport throws, and a list
  of 25 recipients, all the same address.
\<close>

definition rejectingSender :: "nat EmailSender" where
  "rejectingSender = initialize alwaysRejects (constructor ())"

definition faultySender :: "nat EmailSender" where
  "faultySender = initialize alwaysThrows (constructor ())"

definition twentyFive :: "jsstring list" where
  "twentyFive = replicate 25 (js ''a@x.com'')"

text \<open>A sender whose transport throws the string \<^verbatim>\<open>boom\<close>, which is no \<^verbatim>\<open>Error\<close>.\<close>

definition throwsBoom :: "nat Resend" where
  "throwsBoom n req = (Inl (NotAnError (js ''boom'')), n + 1)"

definition boomSender :: "nat EmailSender" where
  "boomSender = initialize throwsBoom (constructor ())"

section \<open>Lemmas\<close>

subsection \<open>Matching\<close>

lemma rprefix_Star_iff:
  "(rprefix (Star p # r) s \<noteq> None) =
   (\<exists>u v. s = u @ v \<and> list_all p u \<and> rprefix r v \<noteq> None)"
proof (induction s)
  case Nil
  then show ?case by simp
next
  case (Cons c cs)
  show ?case
  proof
    assume "rprefix (Star p # r) (c # cs) \<noteq> None"
    then consider "p c" "rprefix (Star p # r) cs \<noteq> None" | "rprefix r (c # cs) \<noteq> None"
      by (auto split: if_splits option.splits)
    then show "\<exists>u v. c # cs = u @ v \<and> list_all p u \<and> rprefix r v \<noteq> None"
    proof cases
      case 1
      with Cons.IH obtain u v where "cs = u @ v" "list_all p u" "rprefix r v \<noteq> None"
        by blast
      with 1 have "c # cs = (c # u) @ v \<and> list_all p (c # u) \<and> rprefix r v \<noteq> None"
        by simp
      then show ?thesis by blast
    next
      case 2
      then have "c # cs = [] @ (c # cs) \<and> list_all p [] \<and> rprefix r (c # cs) \<noteq> None"
        by simp
      then show ?thesis by blast
    qed
  next
    assume "\<exists>u v. c # cs = u @ v \<and> list_all p u \<and> rprefix r v \<noteq> None"
    then obtain u v where uv: "c # cs = u @ v" "list_all p u" "rprefix r v \<noteq> None"
      by blast
    show "rprefix (Star p # r) (c # cs) \<noteq> None"
    proof (cases u)
      case Nil
      with uv show ?thesis by (auto split: option.splits)
    next
      case (Cons d u')
      with uv have "p c" "cs = u' @ v" "list_all p u'" by auto
      with uv Cons.IH have "rprefix (Star p # r) cs \<noteq> None" by blast
      with \<open>p c\<close> show ?thesis by (auto split: option.splits)
    qed
  qed
qed

lemma rprefix_Plus_iff:
  "(rprefix (Plus p # r) s \<noteq> None) =
   (\<exists>u v. s = u @ v \<and> u \<noteq> [] \<and> list_all p u \<and> rprefix r v \<noteq> None)"
proof (cases s)
  case Nil
  then show ?thesis by simp
next
  case (Cons c cs)
  show ?thesis
  proof
    assume "rprefix (Plus p # r) s \<noteq> None"
    with Cons have "p c" "rprefix (Star p # r) cs \<noteq> None"
      by (auto split: if_splits)
    then obtain u v where "cs = u @ v" "list_all p u" "rprefix r v \<noteq> None"
      unfolding rprefix_Star_iff by blast
    with \<open>p c\<close> Cons have "s = (c # u) @ v \<and> c # u \<noteq> [] \<and> list_all p (c # u) \<and> rprefix r v \<noteq> None"
      by simp
    then show "\<exists>u v. s = u @ v \<and> u \<noteq> [] \<and> list_all p u \<and> rprefix r v \<noteq> None"
      by blast
  next
    assume "\<exists>u v. s = u @ v \<and> u \<noteq> [] \<and> list_all p u \<and> rprefix r v \<noteq> None"
    then obtain u v where uv: "s = u @ v" "u \<noteq> []" "list_all p u" "rprefix r v \<noteq> None"
      by blast
    then obtain u' where "u = c # u'" using Cons by (cases u) auto
    with uv Cons have "p c" "cs = u' @ v" "list_all p u'" by auto
    with uv have "rprefix (Star p # r) cs \<noteq> None"
      unfolding rprefix_Star_iff by blast
    with \<open>p c\<close> Cons show "rprefix (Plus p # r) s \<noteq> None" by simp
  qed
qed

lemma rprefix_One_iff:
  "(rprefix (One p # r) s \<noteq> None) = (\<exists>c v. s = c # v \<and> p c \<and> rprefix r v \<noteq> None)"
  by (cases s) auto

lemma rprefix_Eos_iff: "(rprefix [Eos] s \<noteq> None) = (s = [])"
  by simp

lemma validateEmail_iff:
  "validateEmail s =
   (\<exists>l a b. s = l @ AT # a @ DOT # b \<and> l \<noteq> [] \<and> a \<noteq> [] \<and> b \<noteq> [] \<and>
      list_all notSpaceAt l \<and> list_all notSpaceAt a \<and> list_all notSpaceAt b)"
  unfolding validateEmail_def test_anchored_def emailRegex_def
    rprefix_Plus_iff rprefix_One_iff rprefix_Eos_iff
  by (auto; blast)

subsection \<open>Removing tags\<close>

lemma rprefix_tag_tail:
  "rprefix [Star (\<lambda>c. c \<noteq> GT), One (\<lambda>c. c = GT)] cs =
   (case dropWhile (\<lambda>c. c \<noteq> GT) cs of [] \<Rightarrow> None | g # rest \<Rightarrow> Some rest)"
  by (induction cs) (auto split: list.splits option.splits)

lemma length_dropWhile_tail:
  "dropWhile p cs = g # rest \<Longrightarrow> length rest < Suc (length cs)"
proof -
  assume "dropWhile p cs = g # rest"
  then have "length (g # rest) \<le> length cs"
    by (metis length_dropWhile_le)
  then show ?thesis by simp
qed

lemma dropWhile_GT_Nil: "(dropWhile (\<lambda>x. x \<noteq> GT) cs = []) = (GT \<notin> set cs)"
  by (induction cs) auto

lemma stripHtml_Nil: "stripHtml [] = []"
  by (simp add: stripHtml_def)

lemma stripHtml_Cons:
  "stripHtml (c # cs) =
   (if c = LT then
      (case dropWhile (\<lambda>x. x \<noteq> GT) cs of
         [] \<Rightarrow> c # stripHtml cs
       | g # rest \<Rightarrow> stripHtml rest)
    else c # stripHtml cs)"
proof (cases "c = LT")
  case False
  then show ?thesis by (simp add: stripHtml_def tagRegex_def)
next
  case True
  show ?thesis
  proof (cases "dropWhile (\<lambda>x. x \<noteq> GT) cs")
    case Nil
    with True show ?thesis
      by (simp add: stripHtml_def tagRegex_def rprefix_tag_tail del: dropWhile_eq_Nil_conv)
  next
    case (Cons g rest)
    then have "length rest < Suc (length cs)" by (rule length_dropWhile_tail)
    with True Cons show ?thesis
      by (simp add: stripHtml_def tagRegex_def rprefix_tag_tail)
  qed
qed

lemma stripHtml_no_GT: "GT \<notin> set s \<Longrightarrow> stripHtml s = s"
proof (induction s)
  case Nil
  show ?case by (simp add: stripHtml_Nil)
next
  case (Cons c cs)
  then have "dropWhile (\<lambda>x. x \<noteq> GT) cs = []" by auto
  with Cons show ?case by (simp add: stripHtml_Cons del: dropWhile_eq_Nil_conv)
qed

lemma stripHtml_no_tag: "\<not> hasTag s \<Longrightarrow> stripHtml s = s"
proof (induction s)
  case Nil
  show ?case by (simp add: stripHtml_Nil)
next
  case (Cons c cs)
  show ?case
  proof (cases "c = LT")
    case True
    with Cons.prems have "GT \<notin> set (c # cs)" by (simp add: hasTag_def)
    then show ?thesis by (rule stripHtml_no_GT)
  next
    case False
    with Cons show ?thesis by (simp add: stripHtml_Cons hasTag_def)
  qed
qed

lemma stripHtml_tag:
  "LT \<notin> set a \<Longrightarrow> GT \<notin> set t \<Longrightarrow> stripHtml (a @ LT # t @ GT # b) = a @ stripHtml b"
proof (induction a)
  case Nil
  then have "dropWhile (\<lambda>x. x \<noteq> GT) (t @ GT # b) = GT # b"
    by (induction t) auto
  then show ?case by (simp add: stripHtml_Cons)
next
  case (Cons c a)
  then have "c \<noteq> LT" by auto
  with Cons show ?case by (simp add: stripHtml_Cons)
qed

lemma stripHtml_clean: "\<not> hasTag (stripHtml s)"
proof (induction s rule: length_induct)
  case (1 s)
  show ?case
  proof (cases s)
    case Nil
    then show ?thesis by (simp add: stripHtml_Nil hasTag_def)
  next
    case (Cons c cs)
    show ?thesis
    proof (cases "c = LT")
      case False
      with 1 Cons show ?thesis by (simp add: stripHtml_Cons hasTag_def)
    next
      case True
      show ?thesis
      proof (cases "dropWhile (\<lambda>x. x \<noteq> GT) cs")
        case Nil
        then have "GT \<notin> set cs" by auto
        with True Cons have "stripHtml s = s" "GT \<notin> set s"
          by (simp_all add: stripHtml_no_GT LT_def GT_def)
        then show ?thesis using True Cons by (simp add: hasTag_def)
      next
        case (Cons g rest)
        then have "length rest < length s"
          using \<open>s = c # cs\<close> length_dropWhile_tail [of "\<lambda>x. x \<noteq> GT" cs g rest] by simp
        with 1 have "\<not> hasTag (stripHtml rest)" by blast
        with True Cons \<open>s = c # cs\<close> show ?thesis by (simp add: stripHtml_Cons)
      qed
    qed
  qed
qed

lemma hasTag_iff: "hasTag s = (\<exists>a t b. s = a @ LT # t @ GT # b)"
proof
  assume "hasTag s"
  then have g: "GT \<in> set (dropWhile (\<lambda>c. c \<noteq> LT) s)" by (simp add: hasTag_def)
  then have ne: "dropWhile (\<lambda>c. c \<noteq> LT) s \<noteq> []" by force
  then have "hd (dropWhile (\<lambda>c. c \<noteq> LT) s) = LT"
    using hd_dropWhile [of "\<lambda>c. c \<noteq> LT" s] by simp
  with ne obtain rest where r: "dropWhile (\<lambda>c. c \<noteq> LT) s = LT # rest"
    by (cases "dropWhile (\<lambda>c. c \<noteq> LT) s") auto
  with g have "GT \<in> set rest" by (auto simp: LT_def GT_def)
  then obtain t b where "rest = t @ GT # b" by (auto dest: split_list)
  with r have "s = takeWhile (\<lambda>c. c \<noteq> LT) s @ LT # t @ GT # b"
    using takeWhile_dropWhile_id [of "\<lambda>c. c \<noteq> LT" s] by simp
  then show "\<exists>a t b. s = a @ LT # t @ GT # b" by blast
next
  assume "\<exists>a t b. s = a @ LT # t @ GT # b"
  then obtain a t b where s: "s = a @ LT # t @ GT # b" by blast
  have "GT \<in> set (dropWhile (\<lambda>c. c \<noteq> LT) (a @ LT # t @ GT # b))"
  proof (induction a)
    case Nil
    show ?case by simp
  next
    case (Cons c a)
    then show ?case by simp
  qed
  with s show "hasTag s" by (simp add: hasTag_def)
qed

subsection \<open>Sending\<close>

declare campaign_loop.simps [simp del]
declare partition_batches.simps [simp del]

lemma sendEmail_uninitialized:
  "resend this = None \<Longrightarrow>
   sendEmail this d w =
     (Inr \<lparr>success = False, messageId = None, error = Some undefinedResend\<rparr>, w)"
  by (simp add: sendEmail_def try_catch_def sendEmail_try_def sendEmail_catch_def)

lemma sendEmail_never_throws: "\<exists>r. fst (sendEmail this d w) = Inr r"
  by (auto simp: sendEmail_def try_catch_def sendEmail_try_def sendEmail_catch_def Let_def
      split: option.splits prod.splits sum.splits)

lemma sendEmail_events:
  "events (snd (sendEmail this d w)) =
   events w @ (case resend this of None \<Rightarrow> [] | Some send \<Rightarrow> [TransportCall (sendRequest this d)])"
  by (auto simp: sendEmail_def try_catch_def sendEmail_try_def sendEmail_catch_def Let_def
      split: option.splits prod.splits sum.splits)

lemma sendEmail_frame:
  "fst (sendEmail this d (w\<lparr>events := ev\<rparr>)) = fst (sendEmail this d w) \<and>
   tstate (snd (sendEmail this d (w\<lparr>events := ev\<rparr>))) = tstate (snd (sendEmail this d w))"
  by (auto simp: sendEmail_def try_catch_def sendEmail_try_def sendEmail_catch_def Let_def
      split: option.splits prod.splits sum.splits)

lemma sendEmail_tstate_only:
  fixes w w' :: "'st world"
  assumes "tstate w = tstate w'"
  shows "fst (sendEmail this d w') = fst (sendEmail this d w)"
    and "tstate (snd (sendEmail this d w')) = tstate (snd (sendEmail this d w))"
proof -
  from assms have "w' = w\<lparr>events := events w'\<rparr>" by simp
  then have "sendEmail this d w' = sendEmail this d (w\<lparr>events := events w'\<rparr>)" by simp
  then show "fst (sendEmail this d w') = fst (sendEmail this d w)"
    and "tstate (snd (sendEmail this d w')) = tstate (snd (sendEmail this d w))"
    by (simp_all add: sendEmail_frame)
qed

lemma map_sendEmail_tstate_only:
  fixes w w' :: "'st world"
  shows "tstate w = tstate w' \<Longrightarrow>
    fst (map_sendEmail this s c f xs w') = fst (map_sendEmail this s c f xs w) \<and>
    tstate (snd (map_sendEmail this s c f xs w')) = tstate (snd (map_sendEmail this s c f xs w))"
proof (induction xs arbitrary: w w')
  case Nil
  then show ?case by simp
next
  case (Cons x xs)
  let ?d = "campaignData x s c f"
  from Cons.prems have h: "fst (sendEmail this ?d w') = fst (sendEmail this ?d w)"
    "tstate (snd (sendEmail this ?d w)) = tstate (snd (sendEmail this ?d w'))"
    by (simp_all add: sendEmail_tstate_only [of w w'])
  from Cons.IH [OF h(2)] h(1) show ?case
    by (simp add: split_beta Let_def)
qed

lemma length_map_sendEmail: "length (fst (map_sendEmail this s c f xs w)) = length xs"
  by (induction xs arbitrary: w) (simp_all add: split_beta Let_def)

lemma map_sendEmail_events:
  "events (snd (map_sendEmail this s c f xs w)) = events w @ callEvents this s c f xs"
  by (induction xs arbitrary: w)
    (auto simp: split_beta Let_def callEvents_def sendEmail_events split: option.splits)

lemma map_sendEmail_append:
  "map_sendEmail this s c f (xs @ ys) w =
   (fst (map_sendEmail this s c f xs w) @
      fst (map_sendEmail this s c f ys (snd (map_sendEmail this s c f xs w))),
    snd (map_sendEmail this s c f ys (snd (map_sendEmail this s c f xs w))))"
  by (induction xs arbitrary: w) (simp_all add: split_beta Let_def)

lemma map_sendEmail_all_Inr:
  "promise_all (fst (map_sendEmail this s c f xs w)) =
   Inr (map projr (fst (map_sendEmail this s c f xs w)))"
proof (induction xs arbitrary: w)
  case Nil
  show ?case by simp
next
  case (Cons x xs)
  obtain r where r: "fst (sendEmail this (campaignData x s c f) w) = Inr r"
    using sendEmail_never_throws by blast
  with Cons.IH show ?case by (simp add: split_beta Let_def)
qed

lemma map_sendEmail_nth:
  "i < length xs \<Longrightarrow>
   fst (map_sendEmail this s c f xs w) ! i =
   fst (sendEmail this (campaignData (xs ! i) s c f)
          (snd (map_sendEmail this s c f (take i xs) w)))"
proof (induction xs arbitrary: i w)
  case Nil
  then show ?case by simp
next
  case (Cons x xs)
  then show ?case by (cases i) (simp_all add: split_beta Let_def)
qed


lemma between_batches_Cons:
  "between_batches sep (x # ys) = (if ys = [] then x else x @ sep @ between_batches sep ys)"
  by (cases ys) simp_all

lemma partition_batches_Nil: "partition_batches b [] = []"
  by (simp add: partition_batches.simps)

lemma partition_batches_eq_Nil: "0 < b \<Longrightarrow> (partition_batches b xs = []) = (xs = [])"
  by (subst partition_batches.simps) simp

lemma partition_batches_step:
  "0 < b \<Longrightarrow> xs \<noteq> [] \<Longrightarrow>
   partition_batches b xs = take b xs # partition_batches b (drop b xs)"
  by (subst partition_batches.simps) simp

lemma campaign_loop_done:
  "\<not> i < length R \<Longrightarrow> campaign_loop this R s c f i results w = (Inr results, w)"
  by (simp add: campaign_loop.simps)

lemma campaign_loop_step:
  assumes "i < length R"
  shows "campaign_loop this R s c f i results w =
    campaign_loop this R s c f (i + batchSize)
      (results @ map projr (fst (map_sendEmail this s c f (take batchSize (drop i R)) w)))
      (if i + batchSize < length R
       then delay 1000 (snd (map_sendEmail this s c f (take batchSize (drop i R)) w))
       else snd (map_sendEmail this s c f (take batchSize (drop i R)) w))"
  using assms
  by (subst campaign_loop.simps)
    (simp add: slice_arr_def split_beta Let_def map_sendEmail_all_Inr)

lemma campaign_loop_run:
  "fst (campaign_loop this R s c f i results w) =
     Inr (results @ map projr (fst (map_sendEmail this s c f (drop i R) w))) \<and>
   tstate (snd (campaign_loop this R s c f i results w)) =
     tstate (snd (map_sendEmail this s c f (drop i R) w)) \<and>
   events (snd (campaign_loop this R s c f i results w)) =
     events w @ between_batches [Delay 1000]
       (map (callEvents this s c f) (partition_batches batchSize (drop i R)))"
proof (induction this R s c f i results w rule: campaign_loop.induct)
  case (1 this R s c f i results w)
  show ?case
  proof (cases "i < length R")
    case False
    then show ?thesis
      by (simp add: campaign_loop_done partition_batches_Nil)
  next
    case True
    define batch where "batch = take batchSize (drop i R)"
    define rest where "rest = drop (i + batchSize) R"
    define promises where "promises = fst (map_sendEmail this s c f batch w)"
    define w1 where "w1 = snd (map_sendEmail this s c f batch w)"
    define w2 where "w2 = (if i + batchSize < length R then delay 1000 w1 else w1)"
    have "drop i R = take batchSize (drop i R) @ drop batchSize (drop i R)"
      by (simp only: append_take_drop_id)
    then have split: "drop i R = batch @ rest"
      by (simp add: batch_def rest_def add.commute)
    have rest_Nil: "(rest = []) = (\<not> i + batchSize < length R)"
      by (auto simp: rest_def)
    have step: "campaign_loop this R s c f i results w =
        campaign_loop this R s c f (i + batchSize) (results @ map projr promises) w2"
      using True by (simp add: campaign_loop_step batch_def promises_def w1_def w2_def)
    have ih: "fst (campaign_loop this R s c f (i + batchSize) (results @ map projr promises) w2) =
        Inr ((results @ map projr promises) @ map projr (fst (map_sendEmail this s c f rest w2))) \<and>
      tstate (snd (campaign_loop this R s c f (i + batchSize) (results @ map projr promises) w2)) =
        tstate (snd (map_sendEmail this s c f rest w2)) \<and>
      events (snd (campaign_loop this R s c f (i + batchSize) (results @ map projr promises) w2)) =
        events w2 @ between_batches [Delay 1000]
          (map (callEvents this s c f) (partition_batches batchSize rest))"
      using "1.IH" [of batch "map_sendEmail this s c f batch w" promises w1 "map projr promises"] True
      by (simp add: batch_def promises_def w1_def w2_def rest_def slice_arr_def
          map_sendEmail_all_Inr)
    have t2: "tstate w1 = tstate w2"
      by (simp add: w2_def delay_def)
    have same: "fst (map_sendEmail this s c f rest w2) = fst (map_sendEmail this s c f rest w1)"
      "tstate (snd (map_sendEmail this s c f rest w2)) = tstate (snd (map_sendEmail this s c f rest w1))"
      using map_sendEmail_tstate_only [OF t2, of this s c f rest] by simp_all
    have whole: "fst (map_sendEmail this s c f (drop i R) w) =
        promises @ fst (map_sendEmail this s c f rest w1)"
      "snd (map_sendEmail this s c f (drop i R) w) = snd (map_sendEmail this s c f rest w1)"
      by (simp_all add: split map_sendEmail_append promises_def w1_def)
    have ev2: "events w2 = events w @ callEvents this s c f batch @
        (if i + batchSize < length R then [Delay 1000] else [])"
      by (simp add: w2_def w1_def delay_def map_sendEmail_events)
    have ne: "drop i R \<noteq> []" using True by simp
    have part: "partition_batches batchSize (drop i R) =
        batch # partition_batches batchSize rest"
      using partition_batches_step [of batchSize "drop i R"] ne
      by (simp add: batch_def rest_def batchSize_def add.commute)
    have pn: "(partition_batches batchSize rest = []) = (\<not> i + batchSize < length R)"
      using partition_batches_eq_Nil [of batchSize rest] rest_Nil
      by (simp add: batchSize_def)
    have r1: "fst (campaign_loop this R s c f i results w) =
        Inr (results @ map projr (fst (map_sendEmail this s c f (drop i R) w)))"
      using ih by (simp add: step same whole)
    have r2: "tstate (snd (campaign_loop this R s c f i results w)) =
        tstate (snd (map_sendEmail this s c f (drop i R) w))"
      using ih by (simp add: step same whole)
    have r3: "events (snd (campaign_loop this R s c f i results w)) =
        events w @ between_batches [Delay 1000]
          (map (callEvents this s c f) (partition_batches batchSize (drop i R)))"
    proof (cases "i + batchSize < length R")
      case True
      with pn have "partition_batches batchSize rest \<noteq> []" by simp
      with ih True show ?thesis by (simp add: step ev2 part between_batches_Cons)
    next
      case False
      with pn have "partition_batches batchSize rest = []" by simp
      with ih False show ?thesis by (simp add: step ev2 part)
    qed
    from r1 r2 r3 show ?thesis by simp
  qed
qed

lemma sendCampaign_loop:
  "sendCampaign this R s c f w = campaign_loop this R s c f 0 [] w"
proof -
  obtain v w' where "campaign_loop this R s c f 0 [] w = (Inr v, w')"
    using campaign_loop_run [of this R s c f 0 "[]" w]
    by (cases "campaign_loop this R s c f 0 [] w") auto
  then show ?thesis by (simp add: sendCampaign_def try_catch_def)
qed

lemma sendCampaign_run:
  "fst (sendCampaign this R s c f w) = Inr (map projr (fst (map_sendEmail this s c f R w)))"
  "tstate (snd (sendCampaign this R s c f w)) = tstate (snd (map_sendEmail this s c f R w))"
  "events (snd (sendCampaign this R s c f w)) =
     events w @ between_batches [Delay 1000]
       (map (callEvents this s c f) (partition_batches batchSize R))"
  using campaign_loop_run [of this R s c f 0 "[]" w]
  by (simp_all add: sendCampaign_loop)

lemma transportCalls_append:
  "transportCalls (xs @ ys) = transportCalls xs @ transportCalls ys"
  by (induction xs rule: transportCalls.induct) simp_all

lemma delays_append: "delays (xs @ ys) = delays xs @ delays ys"
  by (induction xs rule: delays.induct) simp_all

lemma transportCalls_map [simp]: "transportCalls (map (\<lambda>r. TransportCall (g r)) xs) = map g xs"
  by (induction xs) simp_all

lemma delays_map [simp]: "delays (map (\<lambda>r. TransportCall (g r)) xs) = []"
  by (induction xs) simp_all

lemma delays_callEvents [simp]: "delays (callEvents this s c f xs) = []"
  by (simp add: callEvents_def split: option.splits)

lemma callEvents_append:
  "callEvents this s c f (xs @ ys) = callEvents this s c f xs @ callEvents this s c f ys"
  by (simp add: callEvents_def split: option.splits)

lemma callEvents_Nil [simp]: "callEvents this s c f [] = []"
  by (simp add: callEvents_def split: option.splits)

lemma concat_partition_batches: "0 < b \<Longrightarrow> concat (partition_batches b xs) = xs"
proof (induction xs rule: length_induct)
  case (1 xs)
  show ?case
  proof (cases "xs = []")
    case True
    then show ?thesis by (simp add: partition_batches_Nil)
  next
    case False
    with 1 have "length (drop b xs) < length xs" by simp
    with 1 have "concat (partition_batches b (drop b xs)) = drop b xs" by blast
    with False 1 show ?thesis by (simp add: partition_batches_step)
  qed
qed

lemma transportCalls_between:
  "transportCalls (between_batches [Delay d] (map (callEvents this s c f) bs)) =
   transportCalls (callEvents this s c f (concat bs))"
  by (induction bs) (simp_all add: between_batches_Cons transportCalls_append callEvents_append)

lemma delays_between:
  "delays (between_batches [Delay d] (map (callEvents this s c f) bs)) =
   replicate (length bs - 1) d"
proof (induction bs)
  case Nil
  show ?case by simp
next
  case (Cons x ys)
  show ?case
  proof (cases ys)
    case Nil
    then show ?thesis by simp
  next
    case (Cons y zs)
    with Cons.IH show ?thesis by (simp add: delays_append)
  qed
qed

lemma length_partition_batches:
  "length (partition_batches batchSize xs) = (length xs + 9) div 10"
proof (induction xs rule: length_induct)
  case (1 xs)
  show ?case
  proof (cases "xs = []")
    case True
    then show ?thesis by (simp add: partition_batches_Nil)
  next
    case False
    then have "length (drop batchSize xs) < length xs" by (simp add: batchSize_def)
    with 1 have "length (partition_batches batchSize (drop batchSize xs)) =
        (length (drop batchSize xs) + 9) div 10" by blast
    then have tl: "length (partition_batches batchSize (drop batchSize xs)) =
        (length xs - 10 + 9) div 10" by (simp add: batchSize_def)
    have key: "0 < n \<Longrightarrow> Suc ((n - 10 + 9) div 10) = (n + 9) div 10" for n :: nat
    proof (cases "n < 10")
      case True
      assume "0 < n"
      with True show ?thesis by simp
    next
      case False
      then have "n = (n - 10) + 10" by simp
      then obtain m where "n = m + 10" ..
      then show ?thesis by simp
    qed
    have "0 < length xs" using False by simp
    then have arith: "Suc ((length xs - 10 + 9) div 10) = (length xs + 9) div 10"
      by (rule key)
    have "partition_batches batchSize xs =
        take batchSize xs # partition_batches batchSize (drop batchSize xs)"
      using False by (simp add: partition_batches_step batchSize_def)
    then have "length (partition_batches batchSize xs) =
        Suc (length (partition_batches batchSize (drop batchSize xs)))" by simp
    with tl arith show ?thesis by simp
  qed
qed

lemma sendCampaign_calls:
  "transportCalls (events (snd (sendCampaign this R s c f w))) =
   transportCalls (events w) @ transportCalls (callEvents this s c f R)"
  by (simp add: sendCampaign_run transportCalls_append transportCalls_between
      concat_partition_batches batchSize_def)

lemma batches_minus_one: "(n + 9) div 10 - Suc 0 = (n - Suc 0) div (10::nat)"
proof (cases n)
  case 0
  show ?thesis by (simp add: 0)
next
  case (Suc m)
  have "(m + 10) div 10 = Suc (m div 10)" by simp
  then show ?thesis by (simp add: Suc)
qed

lemma sendCampaign_delays:
  "delays (events (snd (sendCampaign this R s c f w))) =
   delays (events w) @ replicate ((length R - 1) div batchSize) 1000"
proof -
  have "length (partition_batches batchSize R) - 1 = (length R - 1) div batchSize"
    by (simp add: length_partition_batches) (simp add: batches_minus_one batchSize_def)
  then show ?thesis
    by (simp add: sendCampaign_run delays_append delays_between)
qed

lemma partition_batches_25:
  assumes "length R = 25"
  shows "partition_batches batchSize R = [take 10 R, take 10 (drop 10 R), drop 20 R]"
proof -
  from assms have ne: "R \<noteq> []" "drop 10 R \<noteq> []" "drop 20 R \<noteq> []" by auto
  have "partition_batches 10 (drop 20 R) = [drop 20 R]"
    using assms partition_batches_step [of 10 "drop 20 R"] ne(3)
    by (simp add: partition_batches_Nil)
  moreover have "partition_batches 10 (drop 10 R) =
      take 10 (drop 10 R) # partition_batches 10 (drop 20 R)"
    using partition_batches_step [of 10 "drop 10 R"] ne(2) by simp
  moreover have "partition_batches 10 R = take 10 R # partition_batches 10 (drop 10 R)"
    using partition_batches_step [of 10 R] ne(1) by simp
  ultimately show ?thesis by (simp add: batchSize_def)
qed

lemma sendEmail_fault:
  assumes "resend this = Some send"
    and "send (tstate w) (sendRequest this d) = (Inl fault, ts)"
  shows "fst (sendEmail this d w) =
    Inr \<lparr>success = False, messageId = None,
         error = Some (case fault of ErrorInstance m \<Rightarrow> m | NotAnError v \<Rightarrow> js ''Unknown error'')\<rparr>"
  using assms
  by (simp add: sendEmail_def try_catch_def sendEmail_try_def sendEmail_catch_def)

lemma sendEmail_reply:
  assumes "resend this = Some send"
    and "send (tstate w) (sendRequest this d) = (Inr reply, ts)"
  shows "fst (sendEmail this d w) =
    Inr (case error_message reply of
           Some m \<Rightarrow> \<lparr>success = False, messageId = None, error = Some m\<rparr>
         | None \<Rightarrow> \<lparr>success = True, messageId = data_id reply, error = None\<rparr>)"
  using assms
  by (simp add: sendEmail_def try_catch_def sendEmail_try_def sendEmail_catch_def
      split: option.splits)

lemma sendEmail_shape:
  "fst (sendEmail this d w) = Inr r \<Longrightarrow>
   (if success r then error r = None else messageId r = None \<and> error r \<noteq> None)"
  by (auto simp: sendEmail_def try_catch_def sendEmail_try_def sendEmail_catch_def Let_def
      split: option.splits prod.splits sum.splits)

lemma sendCampaign_nth:
  assumes "i < length R"
  shows "fst (sendEmail this (campaignData (R ! i) s c f)
            (snd (map_sendEmail this s c f (take i R) w))) =
         Inr (map projr (fst (map_sendEmail this s c f R w)) ! i)"
proof -
  let ?one = "fst (sendEmail this (campaignData (R ! i) s c f)
             (snd (map_sendEmail this s c f (take i R) w)))"
  obtain r where r: "?one = Inr r"
    using sendEmail_never_throws by blast
  have "fst (map_sendEmail this s c f R w) ! i = ?one" using assms by (rule map_sendEmail_nth)
  with r assms show ?thesis
    by (simp add: length_map_sendEmail)
qed

subsection \<open>Evaluation\<close>

lemmas run_defs =
  sendCampaign_def try_catch_def campaign_loop.simps slice_arr_def batchSize_def
  sendEmail_def sendEmail_try_def sendEmail_catch_def sendRequest_def campaignData_def
  initialize_def constructor_def newWorld_def scenarioSender_def scenarioRecipients_def
  stripHtml_def tagRegex_def LT_def GT_def js_def

lemmas regex_defs =
  validateEmail_def test_anchored_def emailRegex_def notSpaceAt_def isWhiteSpace_def
  AT_def DOT_def js_def

lemma scenario_run:
  "sendCampaign scenarioSender scenarioRecipients (js ''Hi'') (js ''<p>hi</p>'') None newWorld =
   (Inr [\<lparr>success = True, messageId = Some (messageIdOf 0), error = None\<rparr>,
         \<lparr>success = True, messageId = Some (messageIdOf 1), error = None\<rparr>,
         \<lparr>success = True, messageId = Some (messageIdOf 2), error = None\<rparr>],
    \<lparr>tstate = 3,
     events = map (\<lambda>r. TransportCall
        \<lparr>rq_from = js ''Glen AI Agent <noreply@yourdomain.com>'', rq_to = [r],
         rq_subject = js ''Hi'', rq_html = js ''<p>hi</p>'', rq_text = js ''hi''\<rparr>)
        [js ''a@x.com'', js ''bad'', js ''c@x.com'']\<rparr>)"
  by (simp add: run_defs alwaysSucceeds_def numeral_2_eq_2 [symmetric])

lemma bad_is_invalid: "\<not> validateEmail (js ''bad'')"
  by (simp add: regex_defs)

section \<open>Properties of the campaign\<close>

text \<open>
  C1. For every recipient list \<open>R\<close>, duplicates or not, \<^verbatim>\<open>sendCampaign\<close> returns a list
  of outcomes as long as \<open>R\<close>, and the outcome at index \<open>i\<close> is the outcome of the send
  for \<open>R ! i\<close>, made after the sends for the entries before it (the pauses between
  batches do not touch the transport): the outcomes are in the order of the input.
\<close>

theorem sendCampaign_outcomes_in_order:
  "\<exists>outcomes.
     fst (sendCampaign this R subject content from_opt w) = Inr outcomes \<and>
     length outcomes = length R \<and>
     (\<forall>i<length R.
        fst (sendEmail this (campaignData (R ! i) subject content from_opt)
               (snd (map_sendEmail this subject content from_opt (take i R) w))) =
        Inr (outcomes ! i))"
proof (intro exI conjI allI impI)
  let ?ps = "fst (map_sendEmail this subject content from_opt R w)"
  show "fst (sendCampaign this R subject content from_opt w) = Inr (map projr ?ps)"
    by (rule sendCampaign_run(1))
  show "length (map projr ?ps) = length R"
    by (simp add: length_map_sendEmail)
  fix i
  assume i: "i < length R"
  let ?one = "fst (sendEmail this (campaignData (R ! i) subject content from_opt)
             (snd (map_sendEmail this subject content from_opt (take i R) w)))"
  obtain r where r: "?one = Inr r"
    using sendEmail_never_throws by blast
  have "?ps ! i = ?one" using i by (rule map_sendEmail_nth)
  with r i show "?one = Inr (map projr ?ps ! i)"
    by (simp add: length_map_sendEmail)
qed

theorem sendCampaign_outcomes_in_order_witness:
  "\<exists>outcomes.
     fst (sendCampaign scenarioSender scenarioRecipients (js ''Hi'') (js ''<p>hi</p>'') None
            newWorld) = Inr outcomes \<and>
     length outcomes = 3 \<and>
     fst (sendEmail scenarioSender (campaignData (js ''bad'') (js ''Hi'') (js ''<p>hi</p>'') None)
            (snd (map_sendEmail scenarioSender (js ''Hi'') (js ''<p>hi</p>'') None
                    [js ''a@x.com''] newWorld))) =
       Inr (outcomes ! 1)"
proof -
  obtain outcomes where o:
    "fst (sendCampaign scenarioSender scenarioRecipients (js ''Hi'') (js ''<p>hi</p>'') None
            newWorld) = Inr outcomes"
    "length outcomes = length scenarioRecipients"
    "\<forall>i<length scenarioRecipients.
        fst (sendEmail scenarioSender
               (campaignData (scenarioRecipients ! i) (js ''Hi'') (js ''<p>hi</p>'') None)
               (snd (map_sendEmail scenarioSender (js ''Hi'') (js ''<p>hi</p>'') None
                       (take i scenarioRecipients) newWorld))) =
        Inr (outcomes ! i)"
    using sendCampaign_outcomes_in_order
      [of scenarioSender scenarioRecipients "js ''Hi''" "js ''<p>hi</p>''" None newWorld]
    by blast
  have "1 < length scenarioRecipients" by (simp add: scenarioRecipients_def)
  with o(3) have "fst (sendEmail scenarioSender
               (campaignData (scenarioRecipients ! 1) (js ''Hi'') (js ''<p>hi</p>'') None)
               (snd (map_sendEmail scenarioSender (js ''Hi'') (js ''<p>hi</p>'') None
                       (take 1 scenarioRecipients) newWorld))) =
        Inr (outcomes ! 1)"
    by blast
  moreover have "scenarioRecipients ! 1 = js ''bad''"
    "take 1 scenarioRecipients = [js ''a@x.com'']"
    by (simp_all add: scenarioRecipients_def)
  moreover have "length outcomes = 3" using o(2) by (simp add: scenarioRecipients_def)
  ultimately show ?thesis using o(1) by auto
qed

text \<open>
  C2, as the specification states it: an invalid address gives the failure
  ``invalid address'' and no call of the transport, so that the scenario returns a
  success, that failure and a success. The address \<^verbatim>\<open>bad\<close> is invalid, and the send for
  it calls the transport and succeeds.
\<close>

theorem invalid_address_is_sent:
  "\<not> validateEmail (js ''bad'') \<and>
   fst (sendCampaign scenarioSender [js ''a@x.com'', js ''bad'', js ''c@x.com'']
          (js ''Hi'') (js ''<p>hi</p>'') None newWorld) =
     Inr [\<lparr>success = True, messageId = Some (messageIdOf 0), error = None\<rparr>,
          \<lparr>success = True, messageId = Some (messageIdOf 1), error = None\<rparr>,
          \<lparr>success = True, messageId = Some (messageIdOf 2), error = None\<rparr>] \<and>
   map rq_to (transportCalls (events (snd
     (sendCampaign scenarioSender [js ''a@x.com'', js ''bad'', js ''c@x.com'']
        (js ''Hi'') (js ''<p>hi</p>'') None newWorld)))) =
     [[js ''a@x.com''], [js ''bad''], [js ''c@x.com'']]"
  using scenario_run bad_is_invalid by (simp add: scenarioRecipients_def)

text \<open>
  C2, amended. \<^verbatim>\<open>sendEmail\<close> does not validate the recipient. For an invalid address too,
  a sender with a transport calls the transport once, with that address as the only
  recipient, and the outcome is the one of the transport: a success with its identifier
  or a failure with its message. The scenario returns three successes.
\<close>

theorem sendEmail_does_not_validate:
  assumes "resend this = Some send" and "\<not> validateEmail recipient"
  shows "events (snd (sendEmail this (campaignData recipient subject content from_opt) w)) =
      events w @ [TransportCall (sendRequest this (campaignData recipient subject content from_opt))] \<and>
    rq_to (sendRequest this (campaignData recipient subject content from_opt)) = [recipient] \<and>
    (send (tstate w) (sendRequest this (campaignData recipient subject content from_opt)) =
       (Inr \<lparr>data_id = Some mid, error_message = None\<rparr>, ts) \<longrightarrow>
     fst (sendEmail this (campaignData recipient subject content from_opt) w) =
       Inr \<lparr>success = True, messageId = Some mid, error = None\<rparr>) \<and>
    (send (tstate w) (sendRequest this (campaignData recipient subject content from_opt)) =
       (Inr \<lparr>data_id = any, error_message = Some m\<rparr>, ts) \<longrightarrow>
     fst (sendEmail this (campaignData recipient subject content from_opt) w) =
       Inr \<lparr>success = False, messageId = None, error = Some m\<rparr>) \<and>
    fst (sendCampaign scenarioSender [js ''a@x.com'', js ''bad'', js ''c@x.com'']
           (js ''Hi'') (js ''<p>hi</p>'') None newWorld) =
      Inr [\<lparr>success = True, messageId = Some (messageIdOf 0), error = None\<rparr>,
           \<lparr>success = True, messageId = Some (messageIdOf 1), error = None\<rparr>,
           \<lparr>success = True, messageId = Some (messageIdOf 2), error = None\<rparr>]"
proof (intro conjI impI)
  let ?d = "campaignData recipient subject content from_opt"
  show "events (snd (sendEmail this ?d w)) = events w @ [TransportCall (sendRequest this ?d)]"
    using assms(1) by (simp add: sendEmail_events)
  show "rq_to (sendRequest this ?d) = [recipient]"
    by (simp add: sendRequest_def campaignData_def)
  show "fst (sendEmail this ?d w) = Inr \<lparr>success = True, messageId = Some mid, error = None\<rparr>"
    if "send (tstate w) (sendRequest this ?d) =
       (Inr \<lparr>data_id = Some mid, error_message = None\<rparr>, ts)"
    using sendEmail_reply [OF assms(1) that] by simp
  show "fst (sendEmail this ?d w) = Inr \<lparr>success = False, messageId = None, error = Some m\<rparr>"
    if "send (tstate w) (sendRequest this ?d) =
       (Inr \<lparr>data_id = any, error_message = Some m\<rparr>, ts)"
    using sendEmail_reply [OF assms(1) that] by simp
  show "fst (sendCampaign scenarioSender [js ''a@x.com'', js ''bad'', js ''c@x.com'']
           (js ''Hi'') (js ''<p>hi</p>'') None newWorld) =
      Inr [\<lparr>success = True, messageId = Some (messageIdOf 0), error = None\<rparr>,
           \<lparr>success = True, messageId = Some (messageIdOf 1), error = None\<rparr>,
           \<lparr>success = True, messageId = Some (messageIdOf 2), error = None\<rparr>]"
    using scenario_run by (simp add: scenarioRecipients_def)
qed

theorem sendEmail_does_not_validate_witness:
  "resend scenarioSender = Some alwaysSucceeds \<and> \<not> validateEmail (js ''bad'') \<and>
   events (snd (sendEmail scenarioSender
      (campaignData (js ''bad'') (js ''Hi'') (js ''<p>hi</p>'') None) newWorld)) =
     [TransportCall \<lparr>rq_from = js ''Glen AI Agent <noreply@yourdomain.com>'',
        rq_to = [js ''bad''], rq_subject = js ''Hi'', rq_html = js ''<p>hi</p>'',
        rq_text = js ''hi''\<rparr>] \<and>
   fst (sendEmail scenarioSender
      (campaignData (js ''bad'') (js ''Hi'') (js ''<p>hi</p>'') None) newWorld) =
     Inr \<lparr>success = True, messageId = Some (messageIdOf 0), error = None\<rparr>"
proof -
  have init: "resend scenarioSender = Some alwaysSucceeds"
    by (simp add: scenarioSender_def initialize_def)
  have req: "sendRequest scenarioSender
      (campaignData (js ''bad'') (js ''Hi'') (js ''<p>hi</p>'') None) =
     \<lparr>rq_from = js ''Glen AI Agent <noreply@yourdomain.com>'',
        rq_to = [js ''bad''], rq_subject = js ''Hi'', rq_html = js ''<p>hi</p>'',
        rq_text = js ''hi''\<rparr>"
    by (simp add: run_defs)
  show ?thesis
    using sendEmail_does_not_validate [OF init bad_is_invalid,
        of "js ''Hi''" "js ''<p>hi</p>''" None newWorld "messageIdOf 0" 1]
    by (simp add: init bad_is_invalid req) (simp add: alwaysSucceeds_def newWorld_def)
qed

text \<open>
  C3, as the specification states it: an empty recipient list, and an empty subject or
  body, make the whole call fail before any call of the transport. With an empty
  recipient list the call returns the empty list of outcomes, and with an empty subject
  and an empty body the transport is called and the call returns a success.
\<close>

theorem sendCampaign_does_not_fail_fast:
  "fst (sendCampaign scenarioSender [] (js ''Hi'') (js ''<p>hi</p>'') None newWorld) = Inr [] \<and>
   sendCampaign scenarioSender [js ''a@x.com''] [] [] None newWorld =
     (Inr [\<lparr>success = True, messageId = Some (messageIdOf 0), error = None\<rparr>],
      \<lparr>tstate = 1,
       events = [TransportCall
          \<lparr>rq_from = js ''Glen AI Agent <noreply@yourdomain.com>'', rq_to = [js ''a@x.com''],
           rq_subject = [], rq_html = [], rq_text = []\<rparr>]\<rparr>)"
  by (simp add: run_defs alwaysSucceeds_def)

text \<open>
  C3, amended. \<^verbatim>\<open>sendCampaign\<close> checks none of its arguments and never fails as a whole.
  With an empty recipient list it returns the empty list of outcomes and leaves the world
  as it was. With an empty subject or an empty body it returns one outcome for each
  recipient, and a sender with a transport calls the transport once for each recipient,
  with the empty subject, or with the empty body as the HTML and the text.
\<close>

theorem sendCampaign_checks_no_argument:
  "sendCampaign this [] subject content from_opt w = (Inr [], w) \<and>
   (\<exists>outcomes. fst (sendCampaign this R [] content from_opt w) = Inr outcomes \<and>
      length outcomes = length R) \<and>
   (\<exists>outcomes. fst (sendCampaign this R subject [] from_opt w) = Inr outcomes \<and>
      length outcomes = length R) \<and>
   (resend this = Some send \<longrightarrow>
      map rq_subject (transportCalls (events (snd (sendCampaign this R [] content from_opt w)))) =
        map rq_subject (transportCalls (events w)) @ replicate (length R) [] \<and>
      map rq_html (transportCalls (events (snd (sendCampaign this R subject [] from_opt w)))) =
        map rq_html (transportCalls (events w)) @ replicate (length R) [] \<and>
      map rq_text (transportCalls (events (snd (sendCampaign this R subject [] from_opt w)))) =
        map rq_text (transportCalls (events w)) @ replicate (length R) [])"
proof (intro conjI impI)
  show "sendCampaign this [] subject content from_opt w = (Inr [], w)"
    by (simp add: sendCampaign_loop campaign_loop_done)
  show "\<exists>outcomes. fst (sendCampaign this R [] content from_opt w) = Inr outcomes \<and>
      length outcomes = length R"
    by (simp add: sendCampaign_run(1) length_map_sendEmail)
  show "\<exists>outcomes. fst (sendCampaign this R subject [] from_opt w) = Inr outcomes \<and>
      length outcomes = length R"
    by (simp add: sendCampaign_run(1) length_map_sendEmail)
next
  assume init: "resend this = Some send"
  have calls: "transportCalls (events (snd (sendCampaign this R s c from_opt w))) =
      transportCalls (events w) @ map (\<lambda>r. sendRequest this (campaignData r s c from_opt)) R"
    for s c
    using init by (simp add: sendCampaign_calls callEvents_def)
  show "map rq_subject (transportCalls (events (snd (sendCampaign this R [] content from_opt w)))) =
        map rq_subject (transportCalls (events w)) @ replicate (length R) []"
    by (simp add: calls sendRequest_def campaignData_def comp_def map_replicate_const)
  show "map rq_html (transportCalls (events (snd (sendCampaign this R subject [] from_opt w)))) =
        map rq_html (transportCalls (events w)) @ replicate (length R) []"
    by (simp add: calls sendRequest_def campaignData_def comp_def map_replicate_const)
  show "map rq_text (transportCalls (events (snd (sendCampaign this R subject [] from_opt w)))) =
        map rq_text (transportCalls (events w)) @ replicate (length R) []"
    by (simp add: calls sendRequest_def campaignData_def comp_def map_replicate_const stripHtml_Nil)
qed

theorem sendCampaign_checks_no_argument_witness:
  "resend scenarioSender = Some alwaysSucceeds \<and>
   map rq_subject (transportCalls (events (snd
     (sendCampaign scenarioSender scenarioRecipients [] (js ''<p>hi</p>'') None newWorld)))) =
     [[], [], []] \<and>
   map rq_html (transportCalls (events (snd
     (sendCampaign scenarioSender scenarioRecipients (js ''Hi'') [] None newWorld)))) =
     [[], [], []]"
proof -
  have init: "resend scenarioSender = Some alwaysSucceeds"
    by (simp add: scenarioSender_def initialize_def)
  have three: "replicate (length scenarioRecipients) [] = [[], [], []::jsstring]"
    by (simp add: scenarioRecipients_def)
  show ?thesis
    using sendCampaign_checks_no_argument
      [of scenarioSender "js ''Hi''" "js ''<p>hi</p>''" None newWorld scenarioRecipients
        alwaysSucceeds]
    by (simp add: init three newWorld_def)
qed

text \<open>
  C4, as the specification states it: \<^verbatim>\<open>validateEmail\<close> is true exactly for the strings of
  the two-part grammar (a non-empty local part, \<^verbatim>\<open>@\<close>, a non-empty domain, no
  whitespace). The string \<^verbatim>\<open>a@b\<close> is of that grammar and is rejected.
\<close>

theorem validateEmail_rejects_domain_without_dot:
  "twoPartAddress (js ''a@b'') \<and> \<not> validateEmail (js ''a@b'')"
  by (simp add: twoPartAddress_def regex_defs)

text \<open>
  C4, amended. \<^verbatim>\<open>validateEmail\<close> is a function of its argument alone, and it is true
  exactly for the strings made of a local part, \<^verbatim>\<open>@\<close>, and a domain that has a dot
  inside it: the local part, the part of the domain before that dot and the part after it
  are non-empty and hold neither whitespace nor \<^verbatim>\<open>@\<close>. Such a string is of the two-part
  grammar. \<^verbatim>\<open>a@b.com\<close> is accepted; \<^verbatim>\<open>not-an-address\<close> and the empty string are
  rejected.
\<close>

theorem validateEmail_grammar:
  "validateEmail s =
     (\<exists>l a b. s = l @ AT # a @ DOT # b \<and> l \<noteq> [] \<and> a \<noteq> [] \<and> b \<noteq> [] \<and>
        list_all notSpaceAt l \<and> list_all notSpaceAt a \<and> list_all notSpaceAt b) \<and>
   (validateEmail s \<longrightarrow> twoPartAddress s) \<and>
   validateEmail (js ''a@b.com'') \<and>
   \<not> validateEmail (js ''not-an-address'') \<and>
   \<not> validateEmail (js '''')"
proof (intro conjI impI)
  show "validateEmail s =
     (\<exists>l a b. s = l @ AT # a @ DOT # b \<and> l \<noteq> [] \<and> a \<noteq> [] \<and> b \<noteq> [] \<and>
        list_all notSpaceAt l \<and> list_all notSpaceAt a \<and> list_all notSpaceAt b)"
    by (rule validateEmail_iff)
  show "validateEmail (js ''a@b.com'')" by (simp add: regex_defs)
  show "\<not> validateEmail (js ''not-an-address'')" by (simp add: regex_defs)
  show "\<not> validateEmail (js '''')" by (simp add: regex_defs)
next
  assume "validateEmail s"
  then obtain l a b where s: "s = l @ AT # a @ DOT # b" and ne: "l \<noteq> []" "a \<noteq> []" "b \<noteq> []"
    and ok: "list_all notSpaceAt l" "list_all notSpaceAt a" "list_all notSpaceAt b"
    unfolding validateEmail_iff by blast
  have at: "s ! length l = AT" "take (length l) s = l" "drop (Suc (length l)) s = a @ DOT # b"
    "length l < length s"
    by (simp_all add: s)
  with ne have "list_ex (\<lambda>i. s ! i = AT \<and> take i s \<noteq> [] \<and> drop (Suc i) s \<noteq> []) [0..<length s]"
    unfolding list_ex_iff by (intro bexI [of _ "length l"]) simp_all
  moreover have "\<not> isWhiteSpace AT" "\<not> isWhiteSpace DOT"
    by (simp_all add: isWhiteSpace_def AT_def DOT_def)
  with ok have "list_all (\<lambda>c. \<not> isWhiteSpace c) s"
    by (auto simp: s list_all_iff notSpaceAt_def)
  ultimately show "twoPartAddress s" by (simp add: twoPartAddress_def)
qed

theorem validateEmail_grammar_witness:
  "validateEmail (js ''a@x.com'') \<and> twoPartAddress (js ''a@x.com'')"
proof -
  have "validateEmail (js ''a@x.com'')" by (simp add: regex_defs)
  with validateEmail_grammar [of "js ''a@x.com''"] show ?thesis by blast
qed

text \<open>
  C5. \<^verbatim>\<open>sendCampaign\<close> pauses for 1000 ms after a batch exactly when recipients remain
  after it: the events of a campaign are the calls of the batches of 10, in order, with
  one pause between two batches and none after the last. The number of pauses is
  \<open>(length R - 1) div 10\<close>. For 25 recipients the events are 10 calls, a pause,
  10 calls, a pause and 5 calls.
\<close>

theorem sendCampaign_batch_delays:
  "delays (events (snd (sendCampaign this R subject content from_opt w))) =
     delays (events w) @ replicate ((length R - 1) div batchSize) 1000 \<and>
   (resend this = Some send \<longrightarrow>
      events (snd (sendCampaign this R subject content from_opt w)) =
        events w @ between_batches [Delay 1000]
          (map (map (\<lambda>r. TransportCall (sendRequest this (campaignData r subject content from_opt))))
             (partition_batches batchSize R))) \<and>
   (resend this = Some send \<longrightarrow> length R = 25 \<longrightarrow>
      events (snd (sendCampaign this R subject content from_opt w)) =
        events w @
        map (\<lambda>r. TransportCall (sendRequest this (campaignData r subject content from_opt)))
          (take 10 R) @
        [Delay 1000] @
        map (\<lambda>r. TransportCall (sendRequest this (campaignData r subject content from_opt)))
          (take 10 (drop 10 R)) @
        [Delay 1000] @
        map (\<lambda>r. TransportCall (sendRequest this (campaignData r subject content from_opt)))
          (drop 20 R))"
proof (intro conjI impI)
  show "delays (events (snd (sendCampaign this R subject content from_opt w))) =
     delays (events w) @ replicate ((length R - 1) div batchSize) 1000"
    by (rule sendCampaign_delays)
next
  assume init: "resend this = Some send"
  then have ce: "callEvents this subject content from_opt =
      map (\<lambda>r. TransportCall (sendRequest this (campaignData r subject content from_opt)))"
    by (auto simp: callEvents_def)
  show all: "events (snd (sendCampaign this R subject content from_opt w)) =
        events w @ between_batches [Delay 1000]
          (map (map (\<lambda>r. TransportCall (sendRequest this (campaignData r subject content from_opt))))
             (partition_batches batchSize R))"
    by (simp only: sendCampaign_run(3) ce)
  assume "length R = 25"
  then have "partition_batches batchSize R = [take 10 R, take 10 (drop 10 R), drop 20 R]"
    by (rule partition_batches_25)
  then show "events (snd (sendCampaign this R subject content from_opt w)) =
        events w @
        map (\<lambda>r. TransportCall (sendRequest this (campaignData r subject content from_opt)))
          (take 10 R) @
        [Delay 1000] @
        map (\<lambda>r. TransportCall (sendRequest this (campaignData r subject content from_opt)))
          (take 10 (drop 10 R)) @
        [Delay 1000] @
        map (\<lambda>r. TransportCall (sendRequest this (campaignData r subject content from_opt)))
          (drop 20 R)"
    by (simp add: all)
qed

theorem sendCampaign_batch_delays_witness:
  "resend scenarioSender = Some alwaysSucceeds \<and> length twentyFive = 25 \<and>
   delays (events (snd (sendCampaign scenarioSender twentyFive (js ''Hi'') (js ''<p>hi</p>'')
      None newWorld))) = replicate 2 1000 \<and>
   events (snd (sendCampaign scenarioSender twentyFive (js ''Hi'') (js ''<p>hi</p>'')
      None newWorld)) =
     replicate 10 (TransportCall (sendRequest scenarioSender
        (campaignData (js ''a@x.com'') (js ''Hi'') (js ''<p>hi</p>'') None))) @
     [Delay 1000] @
     replicate 10 (TransportCall (sendRequest scenarioSender
        (campaignData (js ''a@x.com'') (js ''Hi'') (js ''<p>hi</p>'') None))) @
     [Delay 1000] @
     replicate 5 (TransportCall (sendRequest scenarioSender
        (campaignData (js ''a@x.com'') (js ''Hi'') (js ''<p>hi</p>'') None)))"
proof -
  have init: "resend scenarioSender = Some alwaysSucceeds"
    by (simp add: scenarioSender_def initialize_def)
  have len: "length twentyFive = 25"
    by (simp add: twentyFive_def)
  let ?call = "\<lambda>r. TransportCall (sendRequest scenarioSender
      (campaignData r (js ''Hi'') (js ''<p>hi</p>'') None))"
  let ?ev = "events (snd (sendCampaign scenarioSender twentyFive (js ''Hi'') (js ''<p>hi</p>'')
      None newWorld))"
  note t = sendCampaign_batch_delays
      [of scenarioSender twentyFive "js ''Hi''" "js ''<p>hi</p>''" None newWorld alwaysSucceeds]
  from t have "delays ?ev =
      delays (events newWorld) @ replicate ((length twentyFive - 1) div batchSize) 1000"
    by (rule conjunct1)
  then have d: "delays ?ev = replicate 2 1000"
    by (simp add: len batchSize_def newWorld_def)
  from t init len have "?ev = events newWorld @ map ?call (take 10 twentyFive) @ [Delay 1000] @
      map ?call (take 10 (drop 10 twentyFive)) @ [Delay 1000] @ map ?call (drop 20 twentyFive)"
    by blast
  then have "?ev = replicate 10 (?call (js ''a@x.com'')) @ [Delay 1000] @
      replicate 10 (?call (js ''a@x.com'')) @ [Delay 1000] @ replicate 5 (?call (js ''a@x.com''))"
    by (simp add: twentyFive_def newWorld_def)
  with init len d show ?thesis by simp
qed

text \<open>
  C6, as the specification states it: every fault thrown during the send for a recipient
  becomes a failure with the description of the fault. The transport of \<open>boomSender\<close>
  throws the string \<^verbatim>\<open>boom\<close>; the fault is caught, and the reason of the failure is
  \<^verbatim>\<open>Unknown error\<close>, not \<^verbatim>\<open>boom\<close>.
\<close>

theorem thrown_string_loses_description:
  "fst (throwsBoom (tstate newWorld)
          (sendRequest boomSender
             (campaignData (js ''a@x.com'') (js ''Hi'') (js ''<p>hi</p>'') None))) =
     Inl (NotAnError (js ''boom'')) \<and>
   fst (sendEmail boomSender
          (campaignData (js ''a@x.com'') (js ''Hi'') (js ''<p>hi</p>'') None) newWorld) =
     Inr \<lparr>success = False, messageId = None, error = Some (js ''Unknown error'')\<rparr> \<and>
   fst (sendCampaign boomSender [js ''a@x.com''] (js ''Hi'') (js ''<p>hi</p>'') None newWorld) =
     Inr [\<lparr>success = False, messageId = None, error = Some (js ''Unknown error'')\<rparr>] \<and>
   js ''Unknown error'' \<noteq> js ''boom''"
  by (simp add: run_defs boomSender_def throwsBoom_def)

text \<open>
  C6, amended. A fault thrown by the transport during the send for a recipient is caught
  in \<^verbatim>\<open>sendEmail\<close> and becomes a failure: its reason is the message of the fault when
  the fault is an instance of \<^verbatim>\<open>Error\<close>, and the fixed text \<^verbatim>\<open>Unknown error\<close> when any
  other value was thrown. In a campaign the outcome at the index of that recipient is
  this failure, and \<^verbatim>\<open>sendCampaign\<close> never throws.
\<close>

theorem transport_fault_becomes_failure:
  assumes "resend this = Some send"
  shows "(send (tstate w) (sendRequest this d) = (Inl fault, ts) \<longrightarrow>
      fst (sendEmail this d w) =
        Inr \<lparr>success = False, messageId = None,
             error = Some (case fault of ErrorInstance m \<Rightarrow> m
                           | NotAnError v \<Rightarrow> js ''Unknown error'')\<rparr>) \<and>
    (i < length R \<and>
     send (tstate (snd (map_sendEmail this subject content from_opt (take i R) w)))
       (sendRequest this (campaignData (R ! i) subject content from_opt)) = (Inl fault, ts) \<longrightarrow>
      (\<exists>outcomes.
         fst (sendCampaign this R subject content from_opt w) = Inr outcomes \<and>
         outcomes ! i =
           \<lparr>success = False, messageId = None,
            error = Some (case fault of ErrorInstance m \<Rightarrow> m
                          | NotAnError v \<Rightarrow> js ''Unknown error'')\<rparr>)) \<and>
    (\<forall>e. fst (sendCampaign this R subject content from_opt w) \<noteq> Inl e)"
proof (intro conjI impI allI)
  assume "send (tstate w) (sendRequest this d) = (Inl fault, ts)"
  with assms show "fst (sendEmail this d w) =
        Inr \<lparr>success = False, messageId = None,
             error = Some (case fault of ErrorInstance m \<Rightarrow> m
                           | NotAnError v \<Rightarrow> js ''Unknown error'')\<rparr>"
    by (rule sendEmail_fault)
next
  let ?wi = "snd (map_sendEmail this subject content from_opt (take i R) w)"
  let ?d = "campaignData (R ! i) subject content from_opt"
  let ?outs = "map projr (fst (map_sendEmail this subject content from_opt R w))"
  assume h: "i < length R \<and> send (tstate ?wi) (sendRequest this ?d) = (Inl fault, ts)"
  then have "fst (sendEmail this ?d ?wi) = Inr (?outs ! i)"
    by (simp add: sendCampaign_nth)
  moreover from assms h have "fst (sendEmail this ?d ?wi) =
      Inr \<lparr>success = False, messageId = None,
           error = Some (case fault of ErrorInstance m \<Rightarrow> m
                         | NotAnError v \<Rightarrow> js ''Unknown error'')\<rparr>"
    by (simp add: sendEmail_fault)
  ultimately have "?outs ! i =
      \<lparr>success = False, messageId = None,
       error = Some (case fault of ErrorInstance m \<Rightarrow> m | NotAnError v \<Rightarrow> js ''Unknown error'')\<rparr>"
    by simp
  moreover have "fst (sendCampaign this R subject content from_opt w) = Inr ?outs"
    by (rule sendCampaign_run(1))
  ultimately show "\<exists>outcomes.
         fst (sendCampaign this R subject content from_opt w) = Inr outcomes \<and>
         outcomes ! i =
           \<lparr>success = False, messageId = None,
            error = Some (case fault of ErrorInstance m \<Rightarrow> m
                          | NotAnError v \<Rightarrow> js ''Unknown error'')\<rparr>"
    by blast
next
  fix e
  show "fst (sendCampaign this R subject content from_opt w) \<noteq> Inl e"
    by (simp add: sendCampaign_run(1))
qed

theorem transport_fault_becomes_failure_witness:
  "resend faultySender = Some alwaysThrows \<and>
   (\<exists>outcomes.
      fst (sendCampaign faultySender scenarioRecipients (js ''Hi'') (js ''<p>hi</p>'') None
             newWorld) = Inr outcomes \<and>
      outcomes ! 1 = \<lparr>success = False, messageId = None, error = Some (js ''fetch failed'')\<rparr>)"
proof -
  have init: "resend faultySender = Some alwaysThrows"
    by (simp add: faultySender_def initialize_def)
  have len: "1 < length scenarioRecipients"
    by (simp add: scenarioRecipients_def)
  let ?w = "snd (map_sendEmail faultySender (js ''Hi'') (js ''<p>hi</p>'') None
      (take 1 scenarioRecipients) newWorld)"
  have throws: "alwaysThrows (tstate ?w)
      (sendRequest faultySender
         (campaignData (scenarioRecipients ! 1) (js ''Hi'') (js ''<p>hi</p>'') None)) =
      (Inl (ErrorInstance (js ''fetch failed'')), tstate ?w + 1)"
    by (simp add: alwaysThrows_def)
  show ?thesis
    using transport_fault_becomes_failure
      [OF init, of newWorld "campaignData (js ''bad'') (js ''Hi'') (js ''<p>hi</p>'') None"
        "ErrorInstance (js ''fetch failed'')" "tstate ?w + 1" 1 scenarioRecipients
        "js ''Hi''" "js ''<p>hi</p>''" None]
      len throws
    by (simp add: init)
qed

text \<open>
  C7. A failure for one recipient stops nothing. Whatever the transport answers (a
  success, an error or a fault, for any of the calls), a sender with a transport calls
  it exactly once for each entry of the list, in the order of the list and with that
  entry as the only recipient, and the campaign returns one outcome for each entry.
\<close>

theorem sendCampaign_no_short_circuit:
  assumes "resend this = Some send"
  shows "\<exists>outcomes.
     fst (sendCampaign this R subject content from_opt w) = Inr outcomes \<and>
     length outcomes = length R \<and>
     transportCalls (events (snd (sendCampaign this R subject content from_opt w))) =
       transportCalls (events w) @
       map (\<lambda>r. sendRequest this (campaignData r subject content from_opt)) R \<and>
     map rq_to (transportCalls (events (snd (sendCampaign this R subject content from_opt w)))) =
       map rq_to (transportCalls (events w)) @ map (\<lambda>r. [r]) R"
proof -
  have calls: "transportCalls (events (snd (sendCampaign this R subject content from_opt w))) =
       transportCalls (events w) @
       map (\<lambda>r. sendRequest this (campaignData r subject content from_opt)) R"
    using assms by (simp add: sendCampaign_calls callEvents_def)
  have "map rq_to (map (\<lambda>r. sendRequest this (campaignData r subject content from_opt)) R) =
      map (\<lambda>r. [r]) R"
    by (simp add: sendRequest_def campaignData_def)
  then have tos: "map rq_to
      (transportCalls (events (snd (sendCampaign this R subject content from_opt w)))) =
      map rq_to (transportCalls (events w)) @ map (\<lambda>r. [r]) R"
    by (simp only: calls map_append)
  show ?thesis
  proof (intro exI conjI)
    show "fst (sendCampaign this R subject content from_opt w) =
        Inr (map projr (fst (map_sendEmail this subject content from_opt R w)))"
      by (rule sendCampaign_run(1))
    show "length (map projr (fst (map_sendEmail this subject content from_opt R w))) = length R"
      by (simp add: length_map_sendEmail)
    show "transportCalls (events (snd (sendCampaign this R subject content from_opt w))) =
       transportCalls (events w) @
       map (\<lambda>r. sendRequest this (campaignData r subject content from_opt)) R"
      by (rule calls)
    show "map rq_to
        (transportCalls (events (snd (sendCampaign this R subject content from_opt w)))) =
       map rq_to (transportCalls (events w)) @ map (\<lambda>r. [r]) R"
      by (rule tos)
  qed
qed

theorem sendCampaign_no_short_circuit_witness:
  "resend rejectingSender = Some alwaysRejects \<and>
   (\<exists>outcomes.
      fst (sendCampaign rejectingSender twentyFive (js ''Hi'') (js ''<p>hi</p>'') None newWorld) =
        Inr outcomes \<and>
      outcomes ! 0 =
        \<lparr>success = False, messageId = None, error = Some (js ''rate limit exceeded'')\<rparr> \<and>
      length outcomes = 25 \<and>
      map rq_to (transportCalls (events (snd
        (sendCampaign rejectingSender twentyFive (js ''Hi'') (js ''<p>hi</p>'') None newWorld)))) =
        replicate 25 [js ''a@x.com''])"
proof -
  let ?d = "campaignData (js ''a@x.com'') (js ''Hi'') (js ''<p>hi</p>'') None"
  have init: "resend rejectingSender = Some alwaysRejects"
    by (simp add: rejectingSender_def initialize_def)
  obtain outcomes where o:
    "fst (sendCampaign rejectingSender twentyFive (js ''Hi'') (js ''<p>hi</p>'') None newWorld) =
       Inr outcomes"
    "length outcomes = length twentyFive"
    "map rq_to (transportCalls (events (snd
        (sendCampaign rejectingSender twentyFive (js ''Hi'') (js ''<p>hi</p>'') None newWorld)))) =
     map rq_to (transportCalls (events newWorld)) @ map (\<lambda>r. [r]) twentyFive"
    using sendCampaign_no_short_circuit
      [OF init, of twentyFive "js ''Hi''" "js ''<p>hi</p>''" None newWorld]
    by blast
  have "alwaysRejects (tstate newWorld) (sendRequest rejectingSender ?d) =
      (Inr \<lparr>data_id = None, error_message = Some (js ''rate limit exceeded'')\<rparr>,
       tstate newWorld + 1)"
    by (simp add: alwaysRejects_def)
  then have first: "fst (sendEmail rejectingSender ?d newWorld) =
      Inr \<lparr>success = False, messageId = None, error = Some (js ''rate limit exceeded'')\<rparr>"
    using sendEmail_reply [OF init, of newWorld ?d] by simp
  have "0 < length twentyFive" by (simp add: twentyFive_def)
  then have "fst (sendEmail rejectingSender
        (campaignData (twentyFive ! 0) (js ''Hi'') (js ''<p>hi</p>'') None)
        (snd (map_sendEmail rejectingSender (js ''Hi'') (js ''<p>hi</p>'') None
           (take 0 twentyFive) newWorld))) =
      Inr (map projr (fst (map_sendEmail rejectingSender (js ''Hi'') (js ''<p>hi</p>'') None
           twentyFive newWorld)) ! 0)"
    by (rule sendCampaign_nth)
  moreover have "outcomes = map projr (fst (map_sendEmail rejectingSender (js ''Hi'')
      (js ''<p>hi</p>'') None twentyFive newWorld))"
    using o(1) by (simp add: sendCampaign_run(1))
  moreover have "twentyFive ! 0 = js ''a@x.com''"
    by (simp add: twentyFive_def)
  ultimately have failed: "outcomes ! 0 =
      \<lparr>success = False, messageId = None, error = Some (js ''rate limit exceeded'')\<rparr>"
    using first by simp
  have "length twentyFive = 25" "map (\<lambda>r. [r]) twentyFive = replicate 25 [js ''a@x.com'']"
    "transportCalls (events newWorld) = []"
    by (simp_all add: twentyFive_def newWorld_def)
  with o init failed show ?thesis by simp
qed

text \<open>
  C8. The outcome of a send is a success or a failure and never both: a success has no
  error, a failure has an error and no message identifier. When the transport accepts
  the message the outcome is the success with the identifier given by the transport;
  when the transport reports an error the outcome is the failure with the message of the
  transport; when the transport throws the outcome is a failure.
\<close>

theorem sendEmail_success_or_failure:
  "\<exists>r. fst (sendEmail this d w) = Inr r \<and>
     (if success r then error r = None else messageId r = None \<and> error r \<noteq> None) \<and>
     (resend this = Some send \<longrightarrow>
      send (tstate w) (sendRequest this d) =
        (Inr \<lparr>data_id = Some mid, error_message = None\<rparr>, ts) \<longrightarrow>
      r = \<lparr>success = True, messageId = Some mid, error = None\<rparr>) \<and>
     (resend this = Some send \<longrightarrow>
      send (tstate w) (sendRequest this d) =
        (Inr \<lparr>data_id = any, error_message = Some m\<rparr>, ts) \<longrightarrow>
      r = \<lparr>success = False, messageId = None, error = Some m\<rparr>) \<and>
     (resend this = Some send \<longrightarrow>
      send (tstate w) (sendRequest this d) = (Inl fault, ts) \<longrightarrow>
      \<not> success r \<and> messageId r = None \<and> error r \<noteq> None)"
proof -
  obtain r where r: "fst (sendEmail this d w) = Inr r"
    using sendEmail_never_throws by blast
  have shape: "if success r then error r = None else messageId r = None \<and> error r \<noteq> None"
    using r by (rule sendEmail_shape)
  have ok: "r = \<lparr>success = True, messageId = Some mid, error = None\<rparr>"
    if "resend this = Some send"
      "send (tstate w) (sendRequest this d) = (Inr \<lparr>data_id = Some mid, error_message = None\<rparr>, ts)"
    using sendEmail_reply [OF that] r by simp
  have rej: "r = \<lparr>success = False, messageId = None, error = Some m\<rparr>"
    if "resend this = Some send"
      "send (tstate w) (sendRequest this d) = (Inr \<lparr>data_id = any, error_message = Some m\<rparr>, ts)"
    using sendEmail_reply [OF that] r by simp
  have thr: "\<not> success r \<and> messageId r = None \<and> error r \<noteq> None"
    if "resend this = Some send" "send (tstate w) (sendRequest this d) = (Inl fault, ts)"
    using sendEmail_fault [OF that] r by auto
  from r shape ok rej thr show ?thesis by blast
qed

theorem sendEmail_success_or_failure_witness:
  "resend scenarioSender = Some alwaysSucceeds \<and>
   fst (sendEmail scenarioSender
      (campaignData (js ''a@x.com'') (js ''Hi'') (js ''<p>hi</p>'') None) newWorld) =
     Inr \<lparr>success = True, messageId = Some (messageIdOf 0), error = None\<rparr>"
proof -
  let ?d = "campaignData (js ''a@x.com'') (js ''Hi'') (js ''<p>hi</p>'') None"
  have init: "resend scenarioSender = Some alwaysSucceeds"
    by (simp add: scenarioSender_def initialize_def)
  have reply: "alwaysSucceeds (tstate newWorld) (sendRequest scenarioSender ?d) =
      (Inr \<lparr>data_id = Some (messageIdOf 0), error_message = None\<rparr>, 1)"
    by (simp add: alwaysSucceeds_def newWorld_def)
  obtain r where r: "fst (sendEmail scenarioSender ?d newWorld) = Inr r"
    "resend scenarioSender = Some alwaysSucceeds \<longrightarrow>
      alwaysSucceeds (tstate newWorld) (sendRequest scenarioSender ?d) =
        (Inr \<lparr>data_id = Some (messageIdOf 0), error_message = None\<rparr>, 1) \<longrightarrow>
      r = \<lparr>success = True, messageId = Some (messageIdOf 0), error = None\<rparr>"
    using sendEmail_success_or_failure
      [of scenarioSender ?d newWorld alwaysSucceeds "messageIdOf 0" 1]
    by blast
  with init reply show ?thesis by simp
qed

text \<open>
  C9, as the specification states it: a plain text that is supplied is used as it is.
  The empty string supplied as the text is not: the text given to the transport is the
  content without its tags.
\<close>

theorem empty_text_is_replaced:
  "map rq_text (transportCalls (events (snd (sendEmail scenarioSender
      \<lparr>ed_to = One_to (js ''a@x.com''), ed_subject = js ''Hi'', ed_content = js ''<p>hi</p>'',
       ed_from = None, ed_html = None, ed_text = Some (js '''')\<rparr> newWorld)))) =
   [js ''hi''] \<and> js ''hi'' \<noteq> js ''''"
  by (simp add: run_defs alwaysSucceeds_def)

text \<open>
  C9, amended. When no plain text is supplied, or the empty string is, the text given to
  the transport is the content with its tags removed; a non-empty plain text is used as
  it is. Removing the tags leaves no \<^verbatim>\<open><\<close> that is followed by a \<^verbatim>\<open>>\<close>, changes nothing
  in a string without such a pair, and deletes a first tag, from the first \<^verbatim>\<open><\<close> to the
  first \<^verbatim>\<open>>\<close> after it, keeping what is before it and going on with the rest.
\<close>

theorem plain_text_fallback:
  "rq_text (sendRequest this d) =
     (case ed_text d of
        None \<Rightarrow> stripHtml (ed_content d)
      | Some t \<Rightarrow> if t = [] then stripHtml (ed_content d) else t) \<and>
   (resend this = Some send \<longrightarrow>
      transportCalls (events (snd (sendEmail this d w))) =
        transportCalls (events w) @ [sendRequest this d]) \<and>
   \<not> (\<exists>a t b. stripHtml x = a @ LT # t @ GT # b) \<and>
   (\<not> (\<exists>a t b. x = a @ LT # t @ GT # b) \<longrightarrow> stripHtml x = x) \<and>
   (LT \<notin> set a \<longrightarrow> GT \<notin> set t \<longrightarrow> stripHtml (a @ LT # t @ GT # b) = a @ stripHtml b)"
proof (intro conjI impI)
  show "rq_text (sendRequest this d) =
     (case ed_text d of
        None \<Rightarrow> stripHtml (ed_content d)
      | Some t \<Rightarrow> if t = [] then stripHtml (ed_content d) else t)"
    by (simp add: sendRequest_def split: option.splits)
  show "transportCalls (events (snd (sendEmail this d w))) =
        transportCalls (events w) @ [sendRequest this d]"
    if "resend this = Some send"
    using that by (simp add: sendEmail_events transportCalls_append)
  show "\<not> (\<exists>a t b. stripHtml x = a @ LT # t @ GT # b)"
    using stripHtml_clean [of x] unfolding hasTag_iff .
  show "stripHtml x = x" if "\<not> (\<exists>a t b. x = a @ LT # t @ GT # b)"
    using that stripHtml_no_tag [of x] unfolding hasTag_iff by blast
  show "stripHtml (a @ LT # t @ GT # b) = a @ stripHtml b"
    if "LT \<notin> set a" "GT \<notin> set t"
    using that by (rule stripHtml_tag)
qed

theorem plain_text_fallback_witness:
  "resend scenarioSender = Some alwaysSucceeds \<and> LT \<notin> set [] \<and> GT \<notin> set (js ''p'') \<and>
   stripHtml (js ''<p>hi</p>'') = stripHtml (js ''hi</p>'') \<and>
   rq_text (sendRequest scenarioSender
      (campaignData (js ''a@x.com'') (js ''Hi'') (js ''<p>hi</p>'') None)) =
     stripHtml (js ''<p>hi</p>'') \<and>
   transportCalls (events (snd (sendEmail scenarioSender
      (campaignData (js ''a@x.com'') (js ''Hi'') (js ''<p>hi</p>'') None) newWorld))) =
     [sendRequest scenarioSender
        (campaignData (js ''a@x.com'') (js ''Hi'') (js ''<p>hi</p>'') None)]"
proof -
  have init: "resend scenarioSender = Some alwaysSucceeds"
    by (simp add: scenarioSender_def initialize_def)
  have tag: "LT \<notin> set []" "GT \<notin> set (js ''p'')"
    "js ''<p>hi</p>'' = [] @ LT # js ''p'' @ GT # js ''hi</p>''"
    by (simp_all add: js_def LT_def GT_def)
  have none: "ed_text (campaignData (js ''a@x.com'') (js ''Hi'') (js ''<p>hi</p>'') None) = None"
    "ed_content (campaignData (js ''a@x.com'') (js ''Hi'') (js ''<p>hi</p>'') None) =
       js ''<p>hi</p>''"
    "events newWorld = []"
    by (simp_all add: campaignData_def newWorld_def)
  show ?thesis
    using plain_text_fallback
      [of scenarioSender "campaignData (js ''a@x.com'') (js ''Hi'') (js ''<p>hi</p>'') None"
        alwaysSucceeds newWorld "js ''<p>hi</p>''" "[]" "js ''p''" "js ''hi</p>''"]
      init tag(1,2)
    by (simp add: none) (simp add: tag(3))
qed

text \<open>
  C10. Called with an empty recipient list, \<^verbatim>\<open>sendCampaign\<close> returns the empty list of
  outcomes and does not throw; the world is the one it started in, so the transport was
  not called and no pause was made.
\<close>

theorem sendCampaign_empty_list:
  "sendCampaign this [] subject content from_opt w = (Inr [], w)"
  by (simp add: sendCampaign_loop campaign_loop_done)

end
